theory Spec2Isabelle
  imports Main "HOL-Library.Word" "HOL-Library.Multiset" "HOL-Library.AList"
begin

section \<open>Data model\<close>

text \<open>
  Byte slices are lists of 8-bit words; a nil slice and an empty slice are both the
  empty list (the code only ever tests them with \<open>len\<close> or together with \<open>== nil\<close>).
  A pointer that may be nil is an option. Durations and clock readings are integers
  (nanoseconds).
\<close>

type_synonym bytes = "8 word list"

text \<open>The wire message \<open>Vnode\<close> of net.proto: id, host, meta.\<close>

record Vnode =
  Id_v :: bytes
  Host :: string
  Meta :: bytes

text \<open>
  Go errors. \<open>errTimedOut\<close> is the package-level sentinel created once by
  \<open>errors.New("timed out")\<close>; \<open>Errorf\<close> is an error built by \<open>fmt.Errorf\<close> with
  the formatted message; \<open>Foreign\<close> is an error value made outside this package (by
  grpc.Dial, by a client stub, by a registered handler), with its message.
\<close>

datatype error = errTimedOut | Errorf string | Foreign string

text \<open>A run-time panic of the Go program: an index out of range.\<close>

datatype panic = IndexOutOfRange

text \<open>
  The interface \<open>VnodeRPC\<close>: what a registered handler answers. A method returning
  \<open>(x, error)\<close> is a pair; both components may be set.
\<close>

record VnodeRPC =
  rpcGetPredecessor :: "Vnode option \<times> error option"
  rpcNotify :: "Vnode \<Rightarrow> Vnode option list \<times> error option"
  rpcFindSuccessors :: "int \<Rightarrow> bytes \<Rightarrow> Vnode option list \<times> error option"
  rpcClearPredecessor :: "Vnode \<Rightarrow> error option"
  rpcSkipSuccessor :: "Vnode \<Rightarrow> error option"

text \<open>
  \<open>Config\<close>. The hash function is represented by its output size in bytes
  (\<open>HashFunc().Size()\<close>); the delegate by an opaque handle, \<open>None\<close> for nil.
\<close>

record Config =
  Hostname :: string
  NumVnodes :: int
  HashFuncSize :: int
  StabilizeMin :: int
  StabilizeMax :: int
  NumSuccessors :: int
  Delegate :: "nat option"
  hashBits :: int

text \<open>
  \<open>localVnode\<close>: the embedded \<open>Vnode\<close> and the routing state. The back pointer to
  the ring and the timer object are left out; \<open>stabilized\<close> is the time stamp.
\<close>

record localVnode =
  vn :: Vnode
  successors :: "Vnode option list"
  finger :: "Vnode option list"
  lastFinger :: int
  predecessor :: "Vnode option"
  stabilized :: int

text \<open>\<open>Ring\<close>: the configuration and the local vnodes (the channels are left out).\<close>

record Ring =
  config :: Config
  vnodes :: "localVnode list"

section \<open>Ring.LookupHash\<close>

text \<open>
  The loop \<open>for successors[len(successors)-1] == nil { successors =
  successors[:len(successors)-1] }\<close>. Indexing an empty slice at \<open>len - 1 = -1\<close> panics.
\<close>

function trimNil :: "Vnode option list \<Rightarrow> panic + Vnode option list" where
  "trimNil succs =
     (if succs = [] then Inl IndexOutOfRange
      else if last succs = None then trimNil (butlast succs)
      else Inr succs)"
  by pat_completeness auto
termination
  by (relation "measure length") auto

declare trimNil.simps [simp del]

text \<open>
  \<open>LookupHash\<close>. \<open>Ring.nearestVnode\<close> and \<open>localVnode.FindSuccessors\<close> are defined
  in other files of the package and are parameters: \<open>nearestVnode\<close> picks the local vnode,
  \<open>vnFindSuccessors\<close> is what that vnode answers. The result is the triple
  \<open>(*Vnode, []*Vnode, error)\<close>, or a panic.
\<close>

definition LookupHash ::
  "(Ring \<Rightarrow> bytes \<Rightarrow> localVnode) \<Rightarrow>
   (localVnode \<Rightarrow> int \<Rightarrow> bytes \<Rightarrow> Vnode option list \<times> error option) \<Rightarrow>
   Ring \<Rightarrow> int \<Rightarrow> bytes \<Rightarrow> panic + (Vnode option \<times> Vnode option list \<times> error option)" where
  "LookupHash nearestVnode vnFindSuccessors r n hash =
     (if n > NumSuccessors (config r) then
        Inr (None, [], Some (Errorf ''cannot ask for more successors than NumSuccessors''))
      else
        let nearest = nearestVnode r hash;
            pred = vn nearest
        in case vnFindSuccessors nearest n hash of
             (succs, Some err) \<Rightarrow> Inr (Some pred, [], Some err)
           | (succs, None) \<Rightarrow>
               (case trimNil succs of
                  Inl p \<Rightarrow> Inl p
                | Inr trimmed \<Rightarrow> Inr (Some pred, trimmed, None)))"

section \<open>The gRPC transport\<close>

text \<open>
  An outbound connection. \<open>conn\<close> is the identity of the \<open>*grpc.ClientConn\<close>
  (the client stub wraps the same connection); \<open>used\<close> is the last-used time stamp.
\<close>

record rpcOutConn =
  host :: string
  conn :: nat
  used :: int

record localRPC =
  vnode :: Vnode
  obj :: VnodeRPC

text \<open>
  \<open>GRPCTransport\<close>. The registry \<open>local\<close> is a map; the pool is a Go map that
  \<open>reapOnce\<close> ranges over, kept as an association list from host to free list;
  \<open>shutdown\<close> is the atomic \<open>int32\<close> flag. The grpc server and the two locks are left
  out. \<open>closed\<close> is not a field of the struct: it records, in order, the connections
  on which \<open>conn.Close()\<close> has been called, so that this effect is part of the state.
\<close>

record GRPCTransport =
  local :: "string \<rightharpoonup> localRPC"
  pool :: "(string \<times> rpcOutConn list) list"
  shutdown :: "32 word"
  timeout :: int
  maxIdle :: int
  closed :: "nat list"

definition NewGRPCTransport :: "int \<Rightarrow> int \<Rightarrow> GRPCTransport" where
  "NewGRPCTransport rpcTimeout connMaxIdle =
     \<lparr>local = Map.empty, pool = [], shutdown = 0, timeout = rpcTimeout,
      maxIdle = connMaxIdle, closed = []\<rparr>"

text \<open>
  The inner loop of \<open>reapOnce\<close> over one free list. The list is the live region
  \<open>conns[0 .. max)\<close>, so \<open>max\<close> is its length: an idle entry at \<open>i\<close> is closed,
  overwritten by the last live entry, and the region shrinks by one
  (\<open>conns[i], conns[max-1] = conns[max-1], nil; max--\<close>); \<open>i--\<close> followed by the
  loop's \<open>i++\<close> examines position \<open>i\<close> again. \<open>time.Since(c.used)\<close> is
  \<open>now - used c\<close>. The result is \<open>conns[:max]\<close> and the extended close record.
\<close>

function reapConns ::
  "int \<Rightarrow> int \<Rightarrow> nat \<Rightarrow> rpcOutConn list \<Rightarrow> nat list \<Rightarrow> rpcOutConn list \<times> nat list" where
  "reapConns now idle i conns cl =
     (if i < length conns then
        (if now - used (conns ! i) > idle then
           reapConns now idle i (butlast (conns[i := last conns])) (cl @ [conn (conns ! i)])
         else reapConns now idle (Suc i) conns cl)
      else (conns, cl))"
  by pat_completeness auto
termination
  by (relation "measure (\<lambda>(now, idle, i, conns, cl). length conns - i)") auto

declare reapConns.simps [simp del]

definition reapHost :: "int \<Rightarrow> string \<times> rpcOutConn list \<Rightarrow> GRPCTransport \<Rightarrow> GRPCTransport" where
  "reapHost now entry cs =
     (case entry of (h, conns) \<Rightarrow>
        (case reapConns now (maxIdle cs) 0 conns (closed cs) of
           (kept, cl) \<Rightarrow> cs\<lparr>pool := AList.update h kept (pool cs), closed := cl\<rparr>))"

definition reapOnce :: "int \<Rightarrow> GRPCTransport \<Rightarrow> GRPCTransport" where
  "reapOnce now cs = fold (reapHost now) (pool cs) cs"

text \<open>
  \<open>Register\<close>. \<open>Vnode.StringID\<close> is defined in another file of the package; it is the
  parameter \<open>StringID\<close> of every function that uses it.
\<close>

definition Register ::
  "(Vnode \<Rightarrow> string) \<Rightarrow> Vnode \<Rightarrow> VnodeRPC \<Rightarrow> GRPCTransport \<Rightarrow> GRPCTransport" where
  "Register StringID v o' cs = cs\<lparr>local := (local cs)(StringID v \<mapsto> \<lparr>vnode = v, obj = o'\<rparr>)\<rparr>"

text \<open>
  \<open>getConn\<close>. \<open>now\<close> is \<open>time.Now()\<close>, \<open>dialed\<close> what \<open>grpc.Dial\<close> returns if
  it is called. The result is \<open>(*rpcOutConn, error)\<close> and the transport afterwards.
\<close>

definition getConn ::
  "int \<Rightarrow> error + nat \<Rightarrow> GRPCTransport \<Rightarrow> string \<Rightarrow> (error + rpcOutConn) \<times> GRPCTransport" where
  "getConn now dialed cs h =
     (if shutdown cs = 1 then (Inl (Errorf ''TCP transport is shutdown''), cs)
      else
        (case (case map_of (pool cs) h of
                 Some list \<Rightarrow>
                   if length list > 0
                   then (Some (last list), cs\<lparr>pool := AList.update h (butlast list) (pool cs)\<rparr>)
                   else (None, cs)
               | None \<Rightarrow> (None, cs)) of
           (None, cs1) \<Rightarrow>
             (case dialed of
                Inr c \<Rightarrow> (Inr \<lparr>host = h, conn = c, used = now\<rparr>, cs1)
              | Inl err \<Rightarrow> (Inl err, cs1))
         | (Some out, cs1) \<Rightarrow> (Inr out, cs1)))"

definition returnConn :: "int \<Rightarrow> GRPCTransport \<Rightarrow> rpcOutConn \<Rightarrow> GRPCTransport" where
  "returnConn now cs o' =
     (let o1 = o'\<lparr>used := now\<rparr> in
      if shutdown cs = 1 then cs\<lparr>closed := closed cs @ [conn o1]\<rparr>
      else
        (let list = (case map_of (pool cs) (host o1) of Some l \<Rightarrow> l | None \<Rightarrow> [])
         in cs\<lparr>pool := AList.update (host o1) (list @ [o1]) (pool cs)\<rparr>))"

text \<open>
  \<open>Shutdown\<close>: the flag is stored, every pooled connection is closed, the pool
  becomes nil (which reads as the empty map; every write to the pool is behind a test of
  the flag). Stopping the grpc server is left out.
\<close>

definition Shutdown :: "GRPCTransport \<Rightarrow> GRPCTransport" where
  "Shutdown cs =
     cs\<lparr>shutdown := 1, closed := closed cs @ map conn (concat (map snd (pool cs))), pool := []\<rparr>"

subsection \<open>Outbound calls\<close>

text \<open>
  What the outside world does to one outbound call: the clock reading and the dial
  outcome seen by \<open>getConn\<close>; the return of the client stub, \<open>Some (t, r)\<close> when it
  returns \<open>r\<close> at time \<open>t\<close> (\<open>Inl\<close> the error) and \<open>None\<close> when it never returns;
  what other goroutines do to the transport between the checkout and that return; and
  whether the \<open>select\<close> takes the \<open>time.After\<close> case although a message is sent.
\<close>

record 'r net =
  clock :: int
  dial :: "error + nat"
  reply :: "(int \<times> (error + 'r)) option"
  meanwhile :: "GRPCTransport \<Rightarrow> GRPCTransport"
  timerWins :: bool

text \<open>The reply messages of net.proto.\<close>

record VnodeList =
  Vnodes :: "Vnode option list"

record Bool =
  Ok :: bool

text \<open>
  The seven outbound methods have one body. The goroutine calls the stub, returns the
  connection, and sends the stub's answer on \<open>respChan\<close> (\<open>Inr\<close>) or \<open>errChan\<close>
  (\<open>Inl\<close>); both channels are buffered, so the send never blocks.
\<close>

definition goroutine ::
  "('r \<Rightarrow> 'v) \<Rightarrow> int \<Rightarrow> error + 'r \<Rightarrow> GRPCTransport \<Rightarrow> rpcOutConn \<Rightarrow> (error + 'v) \<times> GRPCTransport" where
  "goroutine proj t r cs out =
     (let cs' = returnConn t cs out
      in (case r of Inr le \<Rightarrow> (Inr (proj le), cs') | Inl err \<Rightarrow> (Inl err, cs')))"

text \<open>The \<open>select\<close>: \<open>None\<close> is the \<open>time.After\<close> case, \<open>zero\<close> the zero result.\<close>

definition selectResult :: "'v \<Rightarrow> (error + 'v) option \<Rightarrow> 'v \<times> error option" where
  "selectResult zero ev =
     (case ev of
        None \<Rightarrow> (zero, Some errTimedOut)
      | Some (Inl err) \<Rightarrow> (zero, Some err)
      | Some (Inr res) \<Rightarrow> (res, None))"

text \<open>
  The transport in the result is the one after the goroutine has run, which may be
  later than the moment the caller has its answer. When the stub never returns, the
  goroutine never reaches \<open>returnConn\<close>.
\<close>

definition outbound ::
  "'v \<Rightarrow> ('r \<Rightarrow> 'v) \<Rightarrow> 'r net \<Rightarrow> GRPCTransport \<Rightarrow> string \<Rightarrow> ('v \<times> error option) \<times> GRPCTransport" where
  "outbound zero proj env cs h =
     (case getConn (clock env) (dial env) cs h of
        (Inl err, cs1) \<Rightarrow> ((zero, Some err), cs1)
      | (Inr out, cs1) \<Rightarrow>
          (case reply env of
             None \<Rightarrow> (selectResult zero None, cs1)
           | Some (t, r) \<Rightarrow>
               (case goroutine proj t r (meanwhile env cs1) out of
                  (msg, cs2) \<Rightarrow>
                    (selectResult zero (if timerWins env then None else Some msg), cs2))))"

definition ListVnodes ::
  "VnodeList net \<Rightarrow> GRPCTransport \<Rightarrow> string \<Rightarrow> (Vnode option list \<times> error option) \<times> GRPCTransport" where
  "ListVnodes env cs h = outbound [] Vnodes env cs h"

definition Ping ::
  "Bool net \<Rightarrow> GRPCTransport \<Rightarrow> Vnode \<Rightarrow> (bool \<times> error option) \<times> GRPCTransport" where
  "Ping env cs target = outbound False Ok env cs (Host target)"

definition GetPredecessor ::
  "Vnode net \<Rightarrow> GRPCTransport \<Rightarrow> Vnode \<Rightarrow> (Vnode option \<times> error option) \<times> GRPCTransport" where
  "GetPredecessor env cs v = outbound None Some env cs (Host v)"

definition Notify ::
  "VnodeList net \<Rightarrow> GRPCTransport \<Rightarrow> Vnode \<Rightarrow> Vnode \<Rightarrow>
   (Vnode option list \<times> error option) \<times> GRPCTransport" where
  "Notify env cs target self = outbound [] Vnodes env cs (Host target)"

definition FindSuccessors ::
  "VnodeList net \<Rightarrow> GRPCTransport \<Rightarrow> Vnode \<Rightarrow> int \<Rightarrow> bytes \<Rightarrow>
   (Vnode option list \<times> error option) \<times> GRPCTransport" where
  "FindSuccessors env cs v n k = outbound [] Vnodes env cs (Host v)"

definition ClearPredecessor ::
  "unit net \<Rightarrow> GRPCTransport \<Rightarrow> Vnode \<Rightarrow> Vnode \<Rightarrow> error option \<times> GRPCTransport" where
  "ClearPredecessor env cs target self =
     (case outbound False (\<lambda>_. True) env cs (Host target) of ((_, err), cs') \<Rightarrow> (err, cs'))"

definition SkipSuccessor ::
  "unit net \<Rightarrow> GRPCTransport \<Rightarrow> Vnode \<Rightarrow> Vnode \<Rightarrow> error option \<times> GRPCTransport" where
  "SkipSuccessor env cs target self =
     (case outbound False (\<lambda>_. True) env cs (Host target) of ((_, err), cs') \<Rightarrow> (err, cs'))"

subsection \<open>Serving inbound calls\<close>

definition get :: "(Vnode \<Rightarrow> string) \<Rightarrow> GRPCTransport \<Rightarrow> Vnode \<Rightarrow> VnodeRPC option \<times> bool" where
  "get StringID cs v =
     (case local cs (StringID v) of
        Some w \<Rightarrow> (Some (obj w), True)
      | None \<Rightarrow> (None, False))"

text \<open>The verb \<open>%x\<close> of \<open>fmt\<close> on a byte slice: two lower-case hex digits per byte.\<close>

definition hexDigit :: "nat \<Rightarrow> char" where
  "hexDigit d = ''0123456789abcdef'' ! d"

definition hex :: "bytes \<Rightarrow> string" where
  "hex bs = concat (map (\<lambda>b. [hexDigit (unat b div 16), hexDigit (unat b mod 16)]) bs)"

definition notFound :: "Vnode \<Rightarrow> error" where
  "notFound v = Errorf (''target vnode not found: '' @ Host v @ ''/'' @ hex (Id_v v))"

text \<open>
  The server-side calls return the reply and the error, and the transport afterwards
  (they only read the registry under the read lock).
\<close>

definition PingServe ::
  "(Vnode \<Rightarrow> string) \<Rightarrow> GRPCTransport \<Rightarrow> Vnode \<Rightarrow> (Bool \<times> error option) \<times> GRPCTransport" where
  "PingServe StringID cs in' =
     (case get StringID cs in' of
        (_, ok) \<Rightarrow>
          if ok then ((\<lparr>Ok = ok\<rparr>, None), cs)
          else ((\<lparr>Ok = False\<rparr>, Some (notFound in')), cs))"

definition GetPredecessorServe ::
  "(Vnode \<Rightarrow> string) \<Rightarrow> GRPCTransport \<Rightarrow> Vnode \<Rightarrow> (Vnode option \<times> error option) \<times> GRPCTransport" where
  "GetPredecessorServe StringID cs in' =
     (case get StringID cs in' of
        (Some ob, True) \<Rightarrow>
          (case rpcGetPredecessor ob of
             (v, None) \<Rightarrow>
               (case v of
                  None \<Rightarrow> ((Some \<lparr>Id_v = [], Host = [], Meta = []\<rparr>, None), cs)
                | Some p \<Rightarrow> ((Some p, None), cs))
           | (v, Some err) \<Rightarrow> ((v, Some err), cs))
      | _ \<Rightarrow> ((None, Some (notFound in')), cs))"

section \<open>Join\<close>

text \<open>
  The interface \<open>Transport\<close>, over the state \<open>'ts\<close> of the implementation: every
  method takes the state and returns the new one beside its results.
\<close>

record 'ts Transport =
  iListVnodes :: "string \<Rightarrow> 'ts \<Rightarrow> (Vnode option list \<times> error option) \<times> 'ts"
  iPing :: "Vnode \<Rightarrow> 'ts \<Rightarrow> (bool \<times> error option) \<times> 'ts"
  iGetPredecessor :: "Vnode \<Rightarrow> 'ts \<Rightarrow> (Vnode option \<times> error option) \<times> 'ts"
  iNotify :: "Vnode \<Rightarrow> Vnode \<Rightarrow> 'ts \<Rightarrow> (Vnode option list \<times> error option) \<times> 'ts"
  iFindSuccessors :: "Vnode \<Rightarrow> int \<Rightarrow> bytes \<Rightarrow> 'ts \<Rightarrow> (Vnode option list \<times> error option) \<times> 'ts"
  iClearPredecessor :: "Vnode \<Rightarrow> Vnode \<Rightarrow> 'ts \<Rightarrow> error option \<times> 'ts"
  iSkipSuccessor :: "Vnode \<Rightarrow> Vnode \<Rightarrow> 'ts \<Rightarrow> error option \<times> 'ts"
  iRegister :: "Vnode \<Rightarrow> VnodeRPC \<Rightarrow> 'ts \<Rightarrow> 'ts"

text \<open>
  Functions that \<open>Join\<close> calls and that are defined in other files of the package:
  how a local vnode gets its identity and its handler (used by \<open>ring_init\<close> below),
  \<open>nearestVnodeToKey\<close>, and \<open>localVnode.stabilize\<close>.
\<close>

record 'ts Absent =
  newVnode :: "Config \<Rightarrow> nat \<Rightarrow> Vnode"
  handlerOf :: "localVnode \<Rightarrow> VnodeRPC"
  nearestVnodeToKey :: "Vnode option list \<Rightarrow> bytes \<Rightarrow> Vnode"
  stabilize :: "localVnode \<Rightarrow> 'ts \<Rightarrow> localVnode \<times> 'ts"

text \<open>
  What \<open>Join\<close> does to the outside, in order: its calls on the transport, the start of
  the delegate goroutine, the stabilization of a vnode (which schedules its timer).
\<close>

datatype event =
    CallListVnodes string
  | CallRegister Vnode
  | CallFindSuccessors Vnode int bytes
  | GoDelegateHandler
  | CallStabilize Vnode

text \<open>
  Modelled from the spec: \<open>Ring.init\<close> (with \<open>localVnode.init\<close>) is defined in
  another file of the package. The spec has the ring allocate \<open>NumVnodes\<close> vnodes with hash-derived
  ids, a successor list of up to K entries and a finger table of up to \<open>width\<close>
  entries, all absent at first, and has each vnode's handler bound into the registry by
  \<open>Register\<close> at vnode creation ("writes only at vnode creation", "registration
  happens once per vnode at startup"). Starting the periodic tasks is not part of it
  (\<open>Create\<close> calls \<open>schedule\<close> for that).
\<close>

definition ring_init ::
  "'ts Absent \<Rightarrow> Config \<Rightarrow> 'ts Transport \<Rightarrow> 'ts \<Rightarrow> Ring \<times> event list \<times> 'ts" where
  "ring_init A conf tp ts =
     (let vns = map (\<lambda>i. \<lparr>vn = newVnode A conf i,
                          successors = replicate (nat (NumSuccessors conf)) None,
                          finger = replicate (nat (hashBits conf)) None,
                          lastFinger = 0, predecessor = None, stabilized = 0\<rparr>)
                    [0 ..< nat (NumVnodes conf)]
      in (\<lparr>config = conf, vnodes = vns\<rparr>,
          map (\<lambda>v. CallRegister (vn v)) vns,
          fold (\<lambda>v. iRegister tp (vn v) (handlerOf A v)) vns ts))"

text \<open>
  \<open>for idx, s := range succs { vn.successors[idx] = s }\<close>, from index \<open>idx\<close> on:
  a store outside the array panics.
\<close>

fun assignSuccessors ::
  "nat \<Rightarrow> Vnode option list \<Rightarrow> Vnode option list \<Rightarrow> panic + Vnode option list" where
  "assignSuccessors idx [] arr = Inr arr"
| "assignSuccessors idx (s # rest) arr =
     (if idx < length arr then assignSuccessors (Suc idx) rest (arr[idx := s])
      else Inl IndexOutOfRange)"

text \<open>
  The body of the seeding loop for one vnode: \<open>Inr (Inl err)\<close> is the error that
  \<open>Join\<close> returns, \<open>Inr (Inr v)\<close> the seeded vnode.
\<close>

definition seedVnode ::
  "'ts Absent \<Rightarrow> Config \<Rightarrow> 'ts Transport \<Rightarrow> Vnode option list \<Rightarrow> localVnode \<Rightarrow> 'ts \<Rightarrow>
   (panic + (error + localVnode)) \<times> event \<times> 'ts" where
  "seedVnode A conf tp hosts v ts =
     (let nearest = nearestVnodeToKey A hosts (Id_v (vn v));
          ev = CallFindSuccessors nearest (NumSuccessors conf) (Id_v (vn v))
      in case iFindSuccessors tp nearest (NumSuccessors conf) (Id_v (vn v)) ts of
           ((succs, Some err), ts1) \<Rightarrow> (Inr (Inl err), ev, ts1)
         | ((succs, None), ts1) \<Rightarrow>
             if length succs = 0
             then (Inr (Inl (Errorf ''successor vnodes not found'')), ev, ts1)
             else (case assignSuccessors 0 succs (successors v) of
                     Inl p \<Rightarrow> (Inl p, ev, ts1)
                   | Inr arr \<Rightarrow> (Inr (Inr (v\<lparr>successors := arr\<rparr>)), ev, ts1)))"

fun seedLoop ::
  "'ts Absent \<Rightarrow> Config \<Rightarrow> 'ts Transport \<Rightarrow> Vnode option list \<Rightarrow> localVnode list \<Rightarrow> 'ts \<Rightarrow>
   (panic + (error + localVnode list)) \<times> event list \<times> 'ts" where
  "seedLoop A conf tp hosts [] ts = (Inr (Inr []), [], ts)"
| "seedLoop A conf tp hosts (v # rest) ts =
     (case seedVnode A conf tp hosts v ts of
        (Inl p, ev, ts1) \<Rightarrow> (Inl p, [ev], ts1)
      | (Inr (Inl err), ev, ts1) \<Rightarrow> (Inr (Inl err), [ev], ts1)
      | (Inr (Inr v'), ev, ts1) \<Rightarrow>
          (case seedLoop A conf tp hosts rest ts1 of
             (Inr (Inr vs'), evs, ts2) \<Rightarrow> (Inr (Inr (v' # vs')), ev # evs, ts2)
           | (r, evs, ts2) \<Rightarrow> (r, ev # evs, ts2)))"

text \<open>\<open>for _, vn := range ring.vnodes { vn.stabilize() }\<close>\<close>

fun stabilizeAll ::
  "'ts Absent \<Rightarrow> localVnode list \<Rightarrow> 'ts \<Rightarrow> localVnode list \<times> event list \<times> 'ts" where
  "stabilizeAll A [] ts = ([], [], ts)"
| "stabilizeAll A (v # rest) ts =
     (case stabilize A v ts of
        (v', ts1) \<Rightarrow>
          (case stabilizeAll A rest ts1 of
             (vs', evs, ts2) \<Rightarrow> (v' # vs', CallStabilize (vn v) # evs, ts2)))"

text \<open>
  \<open>Join\<close>: the pair \<open>(*Ring, error)\<close> or a panic, the trace of what it did, and the
  transport afterwards.
\<close>

definition Join ::
  "'ts Absent \<Rightarrow> Config \<Rightarrow> 'ts Transport \<Rightarrow> string \<Rightarrow> 'ts \<Rightarrow>
   (panic + (Ring option \<times> error option)) \<times> event list \<times> 'ts" where
  "Join A conf0 tp existing ts =
     (let conf = conf0\<lparr>hashBits := HashFuncSize conf0 * 8\<rparr> in
      case iListVnodes tp existing ts of
        ((hosts, Some err), ts1) \<Rightarrow> (Inr (None, Some err), [CallListVnodes existing], ts1)
      | ((hosts, None), ts1) \<Rightarrow>
          if length hosts = 0
          then (Inr (None, Some (Errorf ''remote host has no vnodes'')),
                [CallListVnodes existing], ts1)
          else
            (case ring_init A conf tp ts1 of
               (ring, regs, ts2) \<Rightarrow>
                 (case seedLoop A conf tp hosts (vnodes ring) ts2 of
                    (Inl p, evs, ts3) \<Rightarrow> (Inl p, CallListVnodes existing # regs @ evs, ts3)
                  | (Inr (Inl err), evs, ts3) \<Rightarrow>
                      (Inr (None, Some err), CallListVnodes existing # regs @ evs, ts3)
                  | (Inr (Inr vs), evs, ts3) \<Rightarrow>
                      (case stabilizeAll A vs ts3 of
                         (vs', stabs, ts4) \<Rightarrow>
                           (Inr (Some (ring\<lparr>vnodes := vs'\<rparr>), None),
                            CallListVnodes existing # regs @ evs
                              @ (if Delegate (config ring) \<noteq> None then [GoDelegateHandler] else [])
                              @ stabs,
                            ts4)))))"

text \<open>
  The gRPC transport as a \<open>Transport\<close>: \<open>world\<close> gives, for each call and its
  arguments, what the outside world does to it.
\<close>

record World =
  wListVnodes :: "string \<Rightarrow> VnodeList net"
  wPing :: "Vnode \<Rightarrow> Bool net"
  wGetPredecessor :: "Vnode \<Rightarrow> Vnode net"
  wNotify :: "Vnode \<Rightarrow> Vnode \<Rightarrow> VnodeList net"
  wFindSuccessors :: "Vnode \<Rightarrow> int \<Rightarrow> bytes \<Rightarrow> VnodeList net"
  wClearPredecessor :: "Vnode \<Rightarrow> Vnode \<Rightarrow> unit net"
  wSkipSuccessor :: "Vnode \<Rightarrow> Vnode \<Rightarrow> unit net"

definition grpcTransport :: "(Vnode \<Rightarrow> string) \<Rightarrow> World \<Rightarrow> GRPCTransport Transport" where
  "grpcTransport StringID w =
     \<lparr>iListVnodes = (\<lambda>h cs. ListVnodes (wListVnodes w h) cs h),
      iPing = (\<lambda>v cs. Ping (wPing w v) cs v),
      iGetPredecessor = (\<lambda>v cs. GetPredecessor (wGetPredecessor w v) cs v),
      iNotify = (\<lambda>t s cs. Notify (wNotify w t s) cs t s),
      iFindSuccessors = (\<lambda>v n k cs. FindSuccessors (wFindSuccessors w v n k) cs v n k),
      iClearPredecessor = (\<lambda>t s cs. ClearPredecessor (wClearPredecessor w t s) cs t s),
      iSkipSuccessor = (\<lambda>t s cs. SkipSuccessor (wSkipSuccessor w t s) cs t s),
      iRegister = Register StringID\<rparr>"

subsection \<open>The seeding as the specification words it\<close>

text \<open>
  A seed call fails when it returns an error or an empty successor list.
\<close>

definition seedFails :: "Vnode option list \<times> error option \<Rightarrow> bool" where
  "seedFails r = (case r of (succs, Some err) \<Rightarrow> True | (succs, None) \<Rightarrow> succs = [])"

text \<open>
  The answers to the seed calls \<open>FindSuccessors(nearest, K, localId)\<close>, one call for
  each local vnode in order; after a call that fails no further call is made.
\<close>

fun seedReplies ::
  "'ts Absent \<Rightarrow> Config \<Rightarrow> 'ts Transport \<Rightarrow> Vnode option list \<Rightarrow> localVnode list \<Rightarrow> 'ts \<Rightarrow>
   (Vnode option list \<times> error option) list" where
  "seedReplies A conf tp hosts [] ts = []"
| "seedReplies A conf tp hosts (v # rest) ts =
     (case iFindSuccessors tp (nearestVnodeToKey A hosts (Id_v (vn v))) (NumSuccessors conf)
             (Id_v (vn v)) ts of
        (r, ts1) \<Rightarrow> r # (if seedFails r then [] else seedReplies A conf tp hosts rest ts1))"

text \<open>The seed call of a vnode, as an event, and the events that are transport queries.\<close>

definition seedCall :: "'ts Absent \<Rightarrow> Config \<Rightarrow> Vnode option list \<Rightarrow> localVnode \<Rightarrow> event" where
  "seedCall A conf hosts v =
     CallFindSuccessors (nearestVnodeToKey A hosts (Id_v (vn v))) (NumSuccessors conf) (Id_v (vn v))"

fun isQuery :: "event \<Rightarrow> bool" where
  "isQuery (CallListVnodes h) = True"
| "isQuery (CallFindSuccessors v n k) = True"
| "isQuery e = False"

subsection \<open>Repeated pings\<close>

text \<open>\<open>k\<close> pings of the same vnode, one after the other: the replies and the transport.\<close>

fun repeatPing ::
  "(Vnode \<Rightarrow> string) \<Rightarrow> nat \<Rightarrow> GRPCTransport \<Rightarrow> Vnode \<Rightarrow> (Bool \<times> error option) list \<times> GRPCTransport" where
  "repeatPing StringID 0 cs v = ([], cs)"
| "repeatPing StringID (Suc k) cs v =
     (case PingServe StringID cs v of
        (r, cs1) \<Rightarrow> (case repeatPing StringID k cs1 v of (rs, cs2) \<Rightarrow> (r # rs, cs2)))"

section \<open>Concrete inputs\<close>

definition vnA :: Vnode where
  "vnA = \<lparr>Id_v = [1], Host = ''a:1'', Meta = []\<rparr>"

definition vnB :: Vnode where
  "vnB = \<lparr>Id_v = [2], Host = ''b:1'', Meta = []\<rparr>"

definition conf1 :: Config where
  "conf1 = \<lparr>Hostname = ''a:1'', NumVnodes = 1, HashFuncSize = 20, StabilizeMin = 15,
            StabilizeMax = 45, NumSuccessors = 1, Delegate = None, hashBits = 160\<rparr>"

definition localA :: localVnode where
  "localA = \<lparr>vn = vnA, successors = [Some vnA], finger = [], lastFinger = 0,
             predecessor = None, stabilized = 0\<rparr>"

definition ring1 :: Ring where
  "ring1 = \<lparr>config = conf1, vnodes = [localA]\<rparr>"

definition idHex :: "Vnode \<Rightarrow> string" where
  "idHex v = hex (Id_v v)"

definition handlerA :: VnodeRPC where
  "handlerA = \<lparr>rpcGetPredecessor = (None, None), rpcNotify = (\<lambda>s. ([Some vnA], None)),
               rpcFindSuccessors = (\<lambda>n k. ([Some vnA], None)),
               rpcClearPredecessor = (\<lambda>s. None), rpcSkipSuccessor = (\<lambda>s. None)\<rparr>"

definition transportA :: GRPCTransport where
  "transportA = Register idHex vnA handlerA (NewGRPCTransport 2000 300000)"

definition connA1 :: rpcOutConn where
  "connA1 = \<lparr>host = ''a:1'', conn = 1, used = 95\<rparr>"

definition connA2 :: rpcOutConn where
  "connA2 = \<lparr>host = ''a:1'', conn = 2, used = 5\<rparr>"

definition connB3 :: rpcOutConn where
  "connB3 = \<lparr>host = ''b:1'', conn = 3, used = 50\<rparr>"

definition transportP :: GRPCTransport where
  "transportP =
     \<lparr>local = Map.empty,
      pool = [(''a:1'', [connA1, connA2]), (''b:1'', [connB3])],
      shutdown = 0, timeout = 2, maxIdle = 10, closed = []\<rparr>"


definition netList :: "VnodeList net" where
  "netList = \<lparr>clock = 100, dial = Inr 7, reply = Some (200, Inr \<lparr>Vnodes = [Some vnB]\<rparr>),
              meanwhile = (\<lambda>cs. cs), timerWins = False\<rparr>"

definition netPing :: "Bool net" where
  "netPing = \<lparr>clock = 100, dial = Inr 7, reply = Some (200, Inr \<lparr>Ok = True\<rparr>),
              meanwhile = (\<lambda>cs. cs), timerWins = True\<rparr>"

definition netVnode :: "Vnode net" where
  "netVnode = \<lparr>clock = 100, dial = Inr 7, reply = Some (200, Inl (Foreign ''unavailable'')),
               meanwhile = (\<lambda>cs. cs), timerWins = False\<rparr>"

definition netUnit :: "unit net" where
  "netUnit = \<lparr>clock = 100, dial = Inr 7, reply = Some (200, Inr ()),
              meanwhile = Shutdown, timerWins = True\<rparr>"

text \<open>The absent helpers, and worlds for a joining node with one vnode.\<close>

definition absentJ :: "GRPCTransport Absent" where
  "absentJ = \<lparr>newVnode = (\<lambda>conf i. vnA), handlerOf = (\<lambda>v. handlerA),
              nearestVnodeToKey = (\<lambda>hosts key. vnB), stabilize = (\<lambda>v ts. (v, ts))\<rparr>"

definition worldJ :: "error + VnodeList \<Rightarrow> error + VnodeList \<Rightarrow> World" where
  "worldJ listed seed =
     \<lparr>wListVnodes = (\<lambda>h. netList\<lparr>reply := Some (200, listed)\<rparr>),
      wPing = (\<lambda>v. netPing), wGetPredecessor = (\<lambda>v. netVnode),
      wNotify = (\<lambda>t s. netList),
      wFindSuccessors = (\<lambda>v n k. netList\<lparr>reply := Some (300, seed)\<rparr>),
      wClearPredecessor = (\<lambda>t s. netUnit), wSkipSuccessor = (\<lambda>t s. netUnit)\<rparr>"

definition transport0 :: GRPCTransport where
  "transport0 = NewGRPCTransport 2000 300000"

definition tpJ :: "error + VnodeList \<Rightarrow> error + VnodeList \<Rightarrow> GRPCTransport Transport" where
  "tpJ listed seed = grpcTransport idHex (worldJ listed seed)"



section \<open>Properties of LookupHash\<close>

lemma trimNil_all_nil:
  "\<forall>x \<in> set succs. x = None \<Longrightarrow> trimNil succs = Inl IndexOutOfRange"
proof (induction succs rule: rev_induct)
  case Nil
  show ?case by (simp add: trimNil.simps)
next
  case (snoc x xs)
  then show ?case by (subst trimNil.simps) simp
qed

lemma trimNil_some:
  "\<exists>x \<in> set succs. x \<noteq> None \<Longrightarrow>
   trimNil succs = Inr (rev (dropWhile (\<lambda>x. x = None) (rev succs)))"
proof (induction succs rule: rev_induct)
  case Nil
  then show ?case by simp
next
  case (snoc x xs)
  show ?case
  proof (cases "x = None")
    case True
    with snoc.prems have "\<exists>y \<in> set xs. y \<noteq> None" by auto
    with snoc.IH True show ?thesis by (subst trimNil.simps) simp
  next
    case False
    then show ?thesis by (subst trimNil.simps) auto
  qed
qed

lemma LookupHash_trims:
  assumes "n \<le> NumSuccessors (config r)"
    and "vnFindSuccessors (nearestVnode r hash) n hash = (succs, None)"
    and "\<exists>x \<in> set succs. x \<noteq> None"
  shows "LookupHash nearestVnode vnFindSuccessors r n hash =
         Inr (Some (vn (nearestVnode r hash)),
              rev (dropWhile (\<lambda>x. x = None) (rev succs)), None)"
  using assms by (simp add: LookupHash_def Let_def trimNil_some)

text \<open>
  C1. With \<open>n \<le> NumSuccessors\<close> and an error-free answer of \<open>FindSuccessors\<close>, the
  trimming loop of \<open>LookupHash\<close> indexes out of range when the answer is empty and
  when all its entries are nil: the call panics instead of returning the trimmed list.
\<close>

theorem LookupHash_panics_without_successor:
  "LookupHash (\<lambda>r h. localA) (\<lambda>v n h. ([], None)) ring1 0 [] = Inl IndexOutOfRange \<and>
   LookupHash (\<lambda>r h. localA) (\<lambda>v n h. ([None], None)) ring1 1 [] = Inl IndexOutOfRange"
  by (simp add: LookupHash_def ring1_def conf1_def trimNil_all_nil)

section \<open>Properties of the serving side\<close>

lemma PingServe_registered:
  "local cs (StringID v) \<noteq> None \<Longrightarrow> PingServe StringID cs v = ((\<lparr>Ok = True\<rparr>, None), cs)"
  by (auto simp: PingServe_def get_def split: option.splits)

lemma PingServe_unregistered:
  "local cs (StringID v) = None \<Longrightarrow>
   PingServe StringID cs v = ((\<lparr>Ok = False\<rparr>, Some (notFound v)), cs)"
  by (simp add: PingServe_def get_def)

lemma repeatPing_registered:
  "local cs (StringID v) \<noteq> None \<Longrightarrow>
   repeatPing StringID k cs v = (replicate k (\<lparr>Ok = True\<rparr>, None), cs)"
  by (induction k) (simp_all add: PingServe_registered)

text \<open>
  C9. \<open>PingServe\<close> answers \<open>(true, nil)\<close> when the id of the target vnode is in the
  local registry, any number of pings in a row answer \<open>(true, nil)\<close> and leave the
  transport, with its registered vnodes, as it was; when the id is not registered the
  answer is an error whose message starts with "target vnode not found".
\<close>

theorem PingServe_answers:
  "(local cs (StringID v) \<noteq> None \<longrightarrow>
      PingServe StringID cs v = ((\<lparr>Ok = True\<rparr>, None), cs) \<and>
      repeatPing StringID k cs v = (replicate k (\<lparr>Ok = True\<rparr>, None), cs)) \<and>
   (local cs (StringID v) = None \<longrightarrow>
      (\<exists>rest. PingServe StringID cs v =
         ((\<lparr>Ok = False\<rparr>, Some (Errorf (''target vnode not found'' @ rest))), cs)))"
  by (auto simp: PingServe_registered repeatPing_registered PingServe_unregistered notFound_def)

theorem PingServe_answers_witness:
  "local transportA (idHex vnA) \<noteq> None \<and> local transportA (idHex vnB) = None \<and>
   PingServe idHex transportA vnA = ((\<lparr>Ok = True\<rparr>, None), transportA) \<and>
   repeatPing idHex 3 transportA vnA = (replicate 3 (\<lparr>Ok = True\<rparr>, None), transportA) \<and>
   PingServe idHex transportA vnB =
     ((\<lparr>Ok = False\<rparr>, Some (Errorf ''target vnode not found: b:1/02'')), transportA)"
proof -
  have a: "local transportA (idHex vnA) \<noteq> None"
    by (simp add: transportA_def Register_def)
  have b: "local transportA (idHex vnB) = None"
    by (simp add: transportA_def Register_def NewGRPCTransport_def idHex_def hex_def
        hexDigit_def vnA_def vnB_def)
  have c: "notFound vnB = Errorf ''target vnode not found: b:1/02''"
    by (simp add: notFound_def vnB_def hex_def hexDigit_def)
  from PingServe_answers [of transportA idHex vnA 3] a
  have "PingServe idHex transportA vnA = ((\<lparr>Ok = True\<rparr>, None), transportA) \<and>
        repeatPing idHex 3 transportA vnA = (replicate 3 (\<lparr>Ok = True\<rparr>, None), transportA)"
    by blast
  moreover from PingServe_answers [of transportA idHex vnB 0] b
  obtain rest where "PingServe idHex transportA vnB =
      ((\<lparr>Ok = False\<rparr>, Some (Errorf (''target vnode not found'' @ rest))), transportA)"
    by blast
  then have "PingServe idHex transportA vnB =
     ((\<lparr>Ok = False\<rparr>, Some (Errorf ''target vnode not found: b:1/02'')), transportA)"
    using PingServe_unregistered [of transportA idHex vnB] b c by simp
  ultimately show ?thesis using a b by blast
qed

text \<open>
  C8. When the target vnode is registered and its handler reports no predecessor (a nil
  vnode and a nil error), \<open>GetPredecessorServe\<close> answers a zero-valued vnode record
  and a nil error.
\<close>

theorem GetPredecessorServe_no_predecessor:
  "local cs (StringID v) = Some w \<Longrightarrow> rpcGetPredecessor (obj w) = (None, None) \<Longrightarrow>
   GetPredecessorServe StringID cs v = ((Some \<lparr>Id_v = [], Host = [], Meta = []\<rparr>, None), cs)"
  by (simp add: GetPredecessorServe_def get_def)

theorem GetPredecessorServe_no_predecessor_witness:
  "local transportA (idHex vnA) = Some \<lparr>vnode = vnA, obj = handlerA\<rparr> \<and>
   rpcGetPredecessor (obj \<lparr>vnode = vnA, obj = handlerA\<rparr>) = (None, None) \<and>
   GetPredecessorServe idHex transportA vnA =
     ((Some \<lparr>Id_v = [], Host = [], Meta = []\<rparr>, None), transportA)"
proof -
  have a: "local transportA (idHex vnA) = Some \<lparr>vnode = vnA, obj = handlerA\<rparr>"
    by (simp add: transportA_def Register_def)
  have b: "rpcGetPredecessor (obj \<lparr>vnode = vnA, obj = handlerA\<rparr>) = (None, None)"
    by (simp add: handlerA_def)
  show ?thesis
    using a b GetPredecessorServe_no_predecessor [of transportA idHex vnA "\<lparr>vnode = vnA, obj = handlerA\<rparr>"]
    by simp
qed

section \<open>Properties of the connection pool\<close>

lemma reapConns_app:
  "reapConns now idle i conns (cl1 @ cl) =
   (case reapConns now idle i conns cl of (k, c) \<Rightarrow> (k, cl1 @ c))"
proof (induction now idle i conns cl arbitrary: cl1 rule: reapConns.induct)
  case (1 now idle i conns cl)
  show ?case
  proof (cases "i < length conns")
    case False
    then show ?thesis by (simp add: reapConns.simps)
  next
    case True
    show ?thesis
    proof (cases "now - used (conns ! i) > idle")
      case idle: True
      show ?thesis
        using True idle "1.IH"(1) [OF True idle, of cl1]
        by (subst (1 2) reapConns.simps) simp
    next
      case False
      show ?thesis
        using True False "1.IH"(2) [OF True False, of cl1]
        by (subst (1 2) reapConns.simps) simp
    qed
  qed
qed

lemma swap_remove_take:
  "i < length conns \<Longrightarrow> take i (butlast (conns[i := last conns])) = take i conns"
  by (auto simp: butlast_conv_take min_def)

lemma swap_remove_drop:
  assumes "i < length conns"
  shows "mset (drop i (butlast (conns[i := last conns]))) = mset (drop (Suc i) conns)"
proof (cases "Suc i = length conns")
  case True
  then show ?thesis by (simp add: butlast_conv_take)
next
  case False
  with assms have lt: "Suc i < length conns" by simp
  define ys where "ys = drop (Suc i) conns"
  have ne: "ys \<noteq> []" using lt by (simp add: ys_def)
  have l: "last conns = last ys" using lt by (simp add: ys_def last_drop)
  have "conns = take i conns @ conns ! i # ys"
    using assms by (simp add: ys_def id_take_nth_drop)
  then have "conns[i := last conns] = take i conns @ last ys # ys"
    using assms l by (metis length_take min.absorb2 less_imp_le list_update_length)
  then have "butlast (conns[i := last conns]) = take i conns @ last ys # butlast ys"
    using ne by (simp add: butlast_append)
  then have "drop i (butlast (conns[i := last conns])) = last ys # butlast ys"
    using assms by simp
  moreover have "mset (last ys # butlast ys) = mset ys"
  proof -
    have "mset ys = mset (butlast ys @ [last ys])" using ne by simp
    then show ?thesis by simp
  qed
  ultimately show ?thesis by (simp add: ys_def)
qed


lemma reapConns_mset:
  "i \<le> length conns \<Longrightarrow> reapConns now idle i conns cl = (kept, cl') \<Longrightarrow>
   mset kept = mset (take i conns) + mset (filter (\<lambda>c. \<not> now - used c > idle) (drop i conns)) \<and>
   mset cl' = mset cl + mset (map conn (filter (\<lambda>c. now - used c > idle) (drop i conns)))"
proof (induction now idle i conns cl rule: reapConns.induct)
  case (1 now idle i conns cl)
  show ?case
  proof (cases "i < length conns")
    case False
    with "1.prems" show ?thesis by (simp add: reapConns.simps)
  next
    case True
    then have d: "drop i conns = conns ! i # drop (Suc i) conns"
      by (simp add: Cons_nth_drop_Suc)
    show ?thesis
    proof (cases "now - used (conns ! i) > idle")
      case idle: True
      let ?c = "butlast (conns[i := last conns])"
      have r: "reapConns now idle i ?c (cl @ [conn (conns ! i)]) = (kept, cl')"
        using "1.prems"(2) True idle by (subst (asm) reapConns.simps) simp
      have le: "i \<le> length ?c" using True by simp
      from "1.IH"(1) [OF True idle le r]
      show ?thesis
        using True idle d by (simp add: swap_remove_take swap_remove_drop)
    next
      case False
      have r: "reapConns now idle (Suc i) conns cl = (kept, cl')"
        using "1.prems"(2) True False by (subst (asm) reapConns.simps) simp
      have le: "Suc i \<le> length conns" using True by simp
      from "1.IH"(2) [OF True False le r]
      show ?thesis
        using True False d by (simp add: take_Suc_conv_app_nth)
    qed
  qed
qed


lemma reapHost_eq:
  "reapHost now (h, conns) cs =
   cs\<lparr>pool := AList.update h (fst (reapConns now (maxIdle cs) 0 conns [])) (pool cs),
      closed := closed cs @ snd (reapConns now (maxIdle cs) 0 conns [])\<rparr>"
  using reapConns_app [of now "maxIdle cs" 0 conns "closed cs" "[]"]
  by (simp add: reapHost_def split: prod.splits)

lemma fold_reapHost:
  "distinct (map fst es) \<Longrightarrow> fst ` set es \<subseteq> fst ` set (pool cs) \<Longrightarrow>
   maxIdle (fold (reapHost now) es cs) = maxIdle cs \<and>
   map fst (pool (fold (reapHost now) es cs)) = map fst (pool cs) \<and>
   (\<forall>h. map_of (pool (fold (reapHost now) es cs)) h =
      (case map_of es h of
         Some conns \<Rightarrow> Some (fst (reapConns now (maxIdle cs) 0 conns []))
       | None \<Rightarrow> map_of (pool cs) h)) \<and>
   closed (fold (reapHost now) es cs) =
     closed cs @ concat (map (\<lambda>e. snd (reapConns now (maxIdle cs) 0 (snd e) [])) es)"
proof (induction es arbitrary: cs)
  case Nil
  then show ?case by simp
next
  case (Cons e es)
  obtain h conns where e: "e = (h, conns)" by (cases e)
  let ?cs1 = "reapHost now (h, conns) cs"
  have hk: "h \<in> fst ` set (pool cs)" using Cons.prems(2) e by auto
  have keys: "map fst (pool ?cs1) = map fst (pool cs)"
    using hk by (simp add: reapHost_eq update_keys)
  have mi: "maxIdle ?cs1 = maxIdle cs" by (simp add: reapHost_eq)
  have d: "distinct (map fst es)" using Cons.prems(1) by simp
  have sub: "fst ` set es \<subseteq> fst ` set (pool ?cs1)"
  proof -
    have "fst ` set (pool ?cs1) = set (map fst (pool ?cs1))" by simp
    also have "\<dots> = fst ` set (pool cs)" by (simp only: keys) simp
    finally show ?thesis using Cons.prems(2) by auto
  qed
  have hn: "map_of es h = None"
    using Cons.prems(1) e by (simp add: map_of_eq_None_iff)
  note IH = Cons.IH [OF d sub]
  have f: "fold (reapHost now) (e # es) cs = fold (reapHost now) es ?cs1" by (simp add: e)
  have m1: "\<And>h'. map_of (pool ?cs1) h' =
      (if h' = h then Some (fst (reapConns now (maxIdle cs) 0 conns [])) else map_of (pool cs) h')"
    by (simp add: reapHost_eq update_conv')
  have c1: "closed ?cs1 = closed cs @ snd (reapConns now (maxIdle cs) 0 conns [])"
    by (simp add: reapHost_eq)
  show ?case
    unfolding f using IH hn by (auto simp: mi keys m1 c1 e split: option.splits)
qed

lemma closed_concat_mset:
  "mset (concat (map (\<lambda>e. snd (reapConns now idle 0 (snd e) [])) es)) =
   mset (map conn (filter (\<lambda>c. now - used c > idle) (concat (map snd es))))"
proof (induction es)
  case Nil
  show ?case by simp
next
  case (Cons e es)
  obtain k c where r: "reapConns now idle 0 (snd e) [] = (k, c)" by (cases "reapConns now idle 0 (snd e) []")
  from reapConns_mset [OF _ r] have "mset c = mset (map conn (filter (\<lambda>c. now - used c > idle) (snd e)))"
    by simp
  with Cons r show ?case by simp
qed

text \<open>
  C7. One pass of \<open>reapOnce\<close> keeps the hosts of the pool; on every host the free
  list afterwards holds exactly the connections whose idle time is within
  \<open>maxIdle\<close>, each as often as before; and the connections closed by the pass are
  exactly those, of all hosts, whose idle time exceeds \<open>maxIdle\<close>. The pool is a Go
  map, so its hosts are distinct.
\<close>

theorem reapOnce_sweeps:
  assumes "distinct (map fst (pool cs))"
  shows "map fst (pool (reapOnce now cs)) = map fst (pool cs) \<and>
         (\<forall>h conns. map_of (pool cs) h = Some conns \<longrightarrow>
            (\<exists>kept. map_of (pool (reapOnce now cs)) h = Some kept \<and>
               mset kept = mset (filter (\<lambda>c. \<not> now - used c > maxIdle cs) conns))) \<and>
         mset (closed (reapOnce now cs)) =
           mset (closed cs) +
           mset (map conn (filter (\<lambda>c. now - used c > maxIdle cs) (concat (map snd (pool cs)))))"
proof -
  note F = fold_reapHost [OF assms subset_refl, of now, folded reapOnce_def]
  have a: "map fst (pool (reapOnce now cs)) = map fst (pool cs)" using F by blast
  have b: "\<exists>kept. map_of (pool (reapOnce now cs)) h = Some kept \<and>
               mset kept = mset (filter (\<lambda>c. \<not> now - used c > maxIdle cs) conns)"
    if "map_of (pool cs) h = Some conns" for h conns
  proof -
    obtain k c where r: "reapConns now (maxIdle cs) 0 conns [] = (k, c)"
      by (cases "reapConns now (maxIdle cs) 0 conns []")
    from F that r have "map_of (pool (reapOnce now cs)) h = Some k" by simp
    moreover from reapConns_mset [OF _ r]
    have "mset k = mset (filter (\<lambda>c. \<not> now - used c > maxIdle cs) conns)" by simp
    ultimately show ?thesis by blast
  qed
  have c: "mset (closed (reapOnce now cs)) =
           mset (closed cs) +
           mset (map conn (filter (\<lambda>c. now - used c > maxIdle cs) (concat (map snd (pool cs)))))"
    using F closed_concat_mset [of now "maxIdle cs" "pool cs"] by simp
  show ?thesis using a b c by blast
qed

theorem reapOnce_sweeps_witness:
  "distinct (map fst (pool transportP)) \<and>
   map_of (pool transportP) ''a:1'' = Some [connA1, connA2] \<and>
   map_of (pool (reapOnce 100 transportP)) ''a:1'' = Some [connA1] \<and>
   mset [connA1] = mset (filter (\<lambda>c. \<not> 100 - used c > maxIdle transportP) [connA1, connA2]) \<and>
   pool (reapOnce 100 transportP) = [(''a:1'', [connA1]), (''b:1'', [])] \<and>
   mset (closed (reapOnce 100 transportP)) =
     mset (closed transportP) +
     mset (map conn (filter (\<lambda>c. 100 - used c > maxIdle transportP)
                      (concat (map snd (pool transportP))))) \<and>
   closed (reapOnce 100 transportP) = [2, 3]"
proof -
  have d: "distinct (map fst (pool transportP))"
    by (simp add: transportP_def)
  have a: "map_of (pool transportP) ''a:1'' = Some [connA1, connA2]"
    by (simp add: transportP_def)
  have e: "pool (reapOnce 100 transportP) = [(''a:1'', [connA1]), (''b:1'', [])] \<and>
           closed (reapOnce 100 transportP) = [2, 3]"
    by (simp add: reapOnce_def reapHost_def transportP_def reapConns.simps
        connA1_def connA2_def connB3_def)
  from reapOnce_sweeps [OF d, of 100] a
  obtain kept where k: "map_of (pool (reapOnce 100 transportP)) ''a:1'' = Some kept"
    "mset kept = mset (filter (\<lambda>c. \<not> 100 - used c > maxIdle transportP) [connA1, connA2])"
    by blast
  from k(1) e have "kept = [connA1]" by simp
  with k d a e reapOnce_sweeps [OF d, of 100] show ?thesis by blast
qed

section \<open>Properties of the outbound calls\<close>






lemma outbound_timer_case:
  "getConn (clock env) (dial env) cs h = (Inr out, cs1) \<Longrightarrow> reply env = None \<or> timerWins env \<Longrightarrow>
   fst (outbound zero proj env cs h) = (zero, Some errTimedOut)"
  by (auto simp: outbound_def goroutine_def selectResult_def Let_def
      split: option.splits sum.splits prod.splits)

lemma outbound_no_conn:
  "getConn (clock env) (dial env) cs h = (Inl err, cs1) \<Longrightarrow>
   outbound zero proj env cs h = ((zero, Some err), cs1)"
  by (simp add: outbound_def)





section \<open>Properties of Join\<close>

lemma assignSuccessors_eq:
  "idx \<le> length arr \<Longrightarrow>
   assignSuccessors idx succs arr =
     (if idx + length succs \<le> length arr
      then Inr (take idx arr @ succs @ drop (idx + length succs) arr)
      else Inl IndexOutOfRange)"
proof (induction succs arbitrary: idx arr)
  case Nil
  then show ?case by simp
next
  case (Cons s rest)
  show ?case
  proof (cases "idx < length arr")
    case False
    then show ?thesis by simp
  next
    case True
    then have le: "Suc idx \<le> length (arr[idx := s])" by simp
    have t: "take (Suc idx) (arr[idx := s]) = take idx arr @ [s]"
      using True by (simp add: take_Suc_conv_app_nth)
    show ?thesis
      using True Cons.IH [OF le] by (simp add: t)
  qed
qed

text \<open>
  C10. The copy of the successor list returned by \<open>FindSuccessors\<close> into the
  successor array of the vnode stays in bounds when the list has at most as many entries
  as the array, and then overwrites the first entries of the array by the list; with a
  longer list the store panics, and nothing in the seeding stops it: the body of the
  loop, and with it the loop, panics on an error-free answer longer than the array.
\<close>

theorem assignSuccessors_bounds:
  "(length ss \<le> length arr \<longrightarrow>
      assignSuccessors 0 ss arr = Inr (ss @ drop (length ss) arr)) \<and>
   (length arr' < length ss' \<longrightarrow> assignSuccessors 0 ss' arr' = Inl IndexOutOfRange) \<and>
   (iFindSuccessors tp (nearestVnodeToKey A hosts (Id_v (vn v))) (NumSuccessors conf)
        (Id_v (vn v)) ts = ((succs, None), ts1) \<and>
    length (successors v) < length succs \<longrightarrow>
      fst (seedVnode A conf tp hosts v ts) = Inl IndexOutOfRange \<and>
      fst (seedLoop A conf tp hosts (v # rest) ts) = Inl IndexOutOfRange)"
  by (auto simp: assignSuccessors_eq seedVnode_def Let_def)

lemma seedVnode_cases:
  assumes "iFindSuccessors tp (nearestVnodeToKey A hosts (Id_v (vn v))) (NumSuccessors conf)
             (Id_v (vn v)) ts = (r, ts1)"
  shows "seedVnode A conf tp hosts v ts =
     (if seedFails r
      then (Inr (Inl (case snd r of Some err \<Rightarrow> err
                      | None \<Rightarrow> Errorf ''successor vnodes not found'')),
            seedCall A conf hosts v, ts1)
      else if length (fst r) \<le> length (successors v)
      then (Inr (Inr (v\<lparr>successors := fst r @ drop (length (fst r)) (successors v)\<rparr>)),
            seedCall A conf hosts v, ts1)
      else (Inl IndexOutOfRange, seedCall A conf hosts v, ts1))"
  using assms
  by (cases r) (auto simp: seedVnode_def seedFails_def seedCall_def Let_def assignSuccessors_eq
      split: option.splits)

lemma seedLoop_step:
  assumes "seedVnode A conf tp hosts v ts = (Inr (Inr v'), ev, ts1)"
  shows "fst (snd (seedLoop A conf tp hosts (v # rest) ts)) =
           ev # fst (snd (seedLoop A conf tp hosts rest ts1))"
    and "snd (snd (seedLoop A conf tp hosts (v # rest) ts)) =
           snd (snd (seedLoop A conf tp hosts rest ts1))"
    and "fst (seedLoop A conf tp hosts (v # rest) ts) =
           (case fst (seedLoop A conf tp hosts rest ts1) of
              Inr (Inr vs') \<Rightarrow> Inr (Inr (v' # vs')) | r \<Rightarrow> r)"
proof -
  obtain r evs ts2 where R: "seedLoop A conf tp hosts rest ts1 = (r, evs, ts2)"
    by (meson prod_cases3)
  show "fst (snd (seedLoop A conf tp hosts (v # rest) ts)) =
           ev # fst (snd (seedLoop A conf tp hosts rest ts1))"
    using assms R by (simp split: sum.splits)
  show "snd (snd (seedLoop A conf tp hosts (v # rest) ts)) =
           snd (snd (seedLoop A conf tp hosts rest ts1))"
    using assms R by (simp split: sum.splits)
  show "fst (seedLoop A conf tp hosts (v # rest) ts) =
           (case fst (seedLoop A conf tp hosts rest ts1) of
              Inr (Inr vs') \<Rightarrow> Inr (Inr (v' # vs')) | r \<Rightarrow> r)"
    using assms R by (simp split: sum.splits)
qed

lemma seedLoop_trace:
  "\<exists>k \<le> length vs. fst (snd (seedLoop A conf tp hosts vs ts)) =
      map (seedCall A conf hosts) (take k vs)"
proof (induction vs arbitrary: ts)
  case Nil
  show ?case by simp
next
  case (Cons v rest)
  obtain r ts1 where f: "iFindSuccessors tp (nearestVnodeToKey A hosts (Id_v (vn v)))
      (NumSuccessors conf) (Id_v (vn v)) ts = (r, ts1)" by (meson surj_pair)
  note sv = seedVnode_cases [OF f]
  consider (fail) "seedFails r"
    | (ok) "\<not> seedFails r" "length (fst r) \<le> length (successors v)"
    | (long) "\<not> seedFails r" "\<not> length (fst r) \<le> length (successors v)" by blast
  then show ?case
  proof cases
    case fail
    then have "fst (snd (seedLoop A conf tp hosts (v # rest) ts)) =
        map (seedCall A conf hosts) (take 1 (v # rest))"
      by (simp add: sv)
    then show ?thesis by (metis One_nat_def Suc_leI length_Cons zero_less_Suc)
  next
    case long
    then have "fst (snd (seedLoop A conf tp hosts (v # rest) ts)) =
        map (seedCall A conf hosts) (take 1 (v # rest))"
      by (simp add: sv)
    then show ?thesis by (metis One_nat_def Suc_leI length_Cons zero_less_Suc)
  next
    case ok
    from Cons.IH [of ts1] obtain k where k: "k \<le> length rest"
      "fst (snd (seedLoop A conf tp hosts rest ts1)) = map (seedCall A conf hosts) (take k rest)"
      by blast
    have "fst (snd (seedLoop A conf tp hosts (v # rest) ts)) =
        map (seedCall A conf hosts) (take (Suc k) (v # rest))"
      using ok k(2) seedLoop_step(1) [of A conf tp hosts v ts _ _ ts1 rest] by (simp add: sv)
    with k(1) show ?thesis by (metis Suc_le_mono length_Cons)
  qed
qed

lemma seedLoop_outcome:
  assumes "\<forall>(v, r) \<in> set (zip vs (seedReplies A conf tp hosts vs ts)).
             length (fst r) \<le> length (successors v)"
  shows "if \<exists>r \<in> set (seedReplies A conf tp hosts vs ts). seedFails r
         then \<exists>err. fst (seedLoop A conf tp hosts vs ts) = Inr (Inl err)
         else \<exists>vs'. fst (seedLoop A conf tp hosts vs ts) = Inr (Inr vs')"
  using assms
proof (induction vs arbitrary: ts)
  case Nil
  show ?case by simp
next
  case (Cons v rest)
  obtain r ts1 where f: "iFindSuccessors tp (nearestVnodeToKey A hosts (Id_v (vn v)))
      (NumSuccessors conf) (Id_v (vn v)) ts = (r, ts1)" by (meson surj_pair)
  note sv = seedVnode_cases [OF f]
  show ?case
  proof (cases "seedFails r")
    case True
    then show ?thesis by (simp add: f sv)
  next
    case False
    have len: "length (fst r) \<le> length (successors v)"
      using Cons.prems False by (simp add: f)
    have b: "\<forall>(v, r) \<in> set (zip rest (seedReplies A conf tp hosts rest ts1)).
               length (fst r) \<le> length (successors v)"
      using Cons.prems False by (simp add: f)
    from Cons.IH [OF b] False len seedLoop_step(3) [of A conf tp hosts v ts _ _ ts1 rest]
    show ?thesis
      by (auto simp: f sv split: if_splits)
  qed
qed


lemma stabilizeAll_trace:
  "stabilizeAll A vs ts = (vs', evs, ts') \<Longrightarrow> filter isQuery evs = []"
proof (induction vs arbitrary: ts vs' evs ts')
  case Nil
  then show ?case by simp
next
  case (Cons v rest)
  obtain v1 ts1 where s: "stabilize A v ts = (v1, ts1)" by (meson surj_pair)
  obtain vs2 evs2 ts2 where r: "stabilizeAll A rest ts1 = (vs2, evs2, ts2)"
    by (meson prod_cases3)
  from Cons.prems have "evs = CallStabilize (vn v) # evs2" by (simp add: s r)
  with Cons.IH [OF r] show ?case by simp
qed

lemma ring_init_trace:
  "ring_init A conf tp ts = (ring, regs, ts2) \<Longrightarrow> filter isQuery regs = []"
  by (auto simp: ring_init_def Let_def filter_empty_conv)

text \<open>
  C5 (as amended). Provided no answer to a seed call has more entries than the successor
  array of its vnode: \<open>Join\<close> returns an error exactly when \<open>ListVnodes\<close> fails or
  returns the empty list, or a seed call fails or returns an empty list; in the empty
  case of \<open>ListVnodes\<close> the message is "remote host has no vnodes"; otherwise it
  returns the ring and a nil error; and its queries to the transport are one
  \<open>ListVnodes\<close> and then one seed call each for an initial part of the vnodes, none
  repeated.
\<close>

theorem Join_error_iff:
  assumes L: "iListVnodes tp existing ts = ((hosts, lerr), ts1)"
    and I: "ring_init A (conf\<lparr>hashBits := HashFuncSize conf * 8\<rparr>) tp ts1 = (ring, regs, ts2)"
    and R: "rs = seedReplies A (conf\<lparr>hashBits := HashFuncSize conf * 8\<rparr>) tp hosts (vnodes ring) ts2"
    and B: "\<forall>(v, r) \<in> set (zip (vnodes ring) rs). length (fst r) \<le> length (successors v)"
  shows "((\<exists>err. fst (Join A conf tp existing ts) = Inr (None, Some err)) \<longleftrightarrow>
            lerr \<noteq> None \<or> hosts = [] \<or> (\<exists>r \<in> set rs. seedFails r)) \<and>
         (lerr = None \<and> hosts = [] \<longrightarrow>
            fst (Join A conf tp existing ts) =
              Inr (None, Some (Errorf ''remote host has no vnodes''))) \<and>
         (lerr = None \<and> hosts \<noteq> [] \<and> (\<forall>r \<in> set rs. \<not> seedFails r) \<longrightarrow>
            (\<exists>ring'. fst (Join A conf tp existing ts) = Inr (Some ring', None))) \<and>
         (\<exists>k \<le> length (vnodes ring).
            filter isQuery (fst (snd (Join A conf tp existing ts))) =
              CallListVnodes existing #
              map (seedCall A (conf\<lparr>hashBits := HashFuncSize conf * 8\<rparr>) hosts)
                  (take k (vnodes ring)))"
proof -
  let ?conf = "conf\<lparr>hashBits := HashFuncSize conf * 8\<rparr>"
  let ?J = "Join A conf tp existing ts"
  show ?thesis
  proof (cases "lerr \<noteq> None \<or> hosts = []")
    case True
    then have "(\<exists>err. fst ?J = Inr (None, Some err)) \<and>
        (lerr = None \<and> hosts = [] \<longrightarrow>
           fst ?J = Inr (None, Some (Errorf ''remote host has no vnodes''))) \<and>
        filter isQuery (fst (snd ?J)) = CallListVnodes existing # map (seedCall A ?conf hosts) (take 0 (vnodes ring))"
      using L by (auto simp: Join_def Let_def split: option.splits)
    with True show ?thesis by blast
  next
    case False
    then have ok: "lerr = None" "hosts \<noteq> []" by auto
    obtain r evs ts3 where S: "seedLoop A ?conf tp hosts (vnodes ring) ts2 = (r, evs, ts3)"
      by (meson prod_cases3)
    from seedLoop_trace [of "vnodes ring" A ?conf tp hosts ts2] S
    obtain k where k: "k \<le> length (vnodes ring)"
      "evs = map (seedCall A ?conf hosts) (take k (vnodes ring))" by auto
    have q: "filter isQuery evs = evs"
      by (simp add: k(2) seedCall_def filter_id_conv)
    have tr: "filter isQuery (fst (snd ?J)) = CallListVnodes existing # evs"
      using L I S ok ring_init_trace [OF I] q
      by (auto simp: Join_def Let_def split: sum.splits prod.splits dest: stabilizeAll_trace)
    have B': "\<forall>(v, r) \<in> set (zip (vnodes ring) (seedReplies A ?conf tp hosts (vnodes ring) ts2)).
                length (fst r) \<le> length (successors v)"
      using B R by simp
    from seedLoop_outcome [OF B'] R S
    have out: "if \<exists>r \<in> set rs. seedFails r then \<exists>err. r = Inr (Inl err)
               else \<exists>vs'. r = Inr (Inr vs')" by (auto split: if_splits)
    have res: "(\<exists>err. fst ?J = Inr (None, Some err)) \<longleftrightarrow> (\<exists>r \<in> set rs. seedFails r)"
      using L I S ok out by (auto simp: Join_def Let_def split: sum.splits prod.splits if_splits)
    have succ: "(\<forall>r \<in> set rs. \<not> seedFails r) \<longrightarrow> (\<exists>ring'. fst ?J = Inr (Some ring', None))"
      using L I S ok out by (auto simp: Join_def Let_def split: sum.splits prod.splits if_splits)
    show ?thesis using ok res succ tr k by auto
  qed
qed

lemma getConn_local: "local (snd (getConn now dialed cs h)) = local cs"
  by (simp add: getConn_def split: option.splits sum.splits)

lemma returnConn_local: "local (returnConn t cs out) = local cs"
  by (simp add: returnConn_def Let_def)

lemma outbound_local:
  assumes "\<forall>c. local (meanwhile env c) = local c"
  shows "local (snd (outbound zero proj env cs h)) = local cs"
proof -
  obtain g cs1 where g: "getConn (clock env) (dial env) cs h = (g, cs1)" by (meson surj_pair)
  from getConn_local [of "clock env" "dial env" cs h] g have l: "local cs1 = local cs" by simp
  show ?thesis
    using assms l
    by (auto simp: outbound_def g goroutine_def Let_def returnConn_local
        split: sum.splits option.splits)
qed

lemma Register_fold_keeps:
  "local cs key \<noteq> None \<Longrightarrow>
   local (fold (\<lambda>v. Register StringID (vn v) (handlerOf A v)) vs cs) key \<noteq> None"
  by (induction vs arbitrary: cs) (simp_all add: Register_def)

lemma Register_fold_registers:
  "v \<in> set vs \<Longrightarrow>
   local (fold (\<lambda>v. Register StringID (vn v) (handlerOf A v)) vs cs) (StringID (vn v)) \<noteq> None"
proof (induction vs arbitrary: cs)
  case Nil
  then show ?case by simp
next
  case (Cons a vs)
  show ?case
  proof (cases "v = a")
    case True
    have "local (Register StringID (vn a) (handlerOf A a) cs) (StringID (vn a)) \<noteq> None"
      by (simp add: Register_def)
    then show ?thesis using True by (simp add: Register_fold_keeps)
  next
    case False
    with Cons show ?thesis by simp
  qed
qed

lemma ring_init_registers:
  assumes "ring_init A conf (grpcTransport StringID w) cs = (ring, regs, cs2)"
    and "v \<in> set (vnodes ring)"
  shows "local cs2 (StringID (vn v)) \<noteq> None"
  using assms Register_fold_registers [of v _ StringID A cs]
  by (auto simp: ring_init_def Let_def grpcTransport_def)

lemma ring_init_only_registers:
  "ring_init A conf tp cs = (ring, regs, cs2) \<Longrightarrow>
   GoDelegateHandler \<notin> set regs \<and> (\<forall>v. CallStabilize v \<notin> set regs)"
  by (auto simp: ring_init_def Let_def)

lemma seedLoop_local:
  assumes "\<forall>v n k c. local (meanwhile (wFindSuccessors w v n k) c) = local c"
  shows "local (snd (snd (seedLoop A conf (grpcTransport StringID w) hosts vs cs))) = local cs"
proof (induction vs arbitrary: cs)
  case Nil
  show ?case by simp
next
  case (Cons v rest)
  let ?tp = "grpcTransport StringID w"
  obtain r cs1 where f: "iFindSuccessors ?tp (nearestVnodeToKey A hosts (Id_v (vn v)))
      (NumSuccessors conf) (Id_v (vn v)) cs = (r, cs1)" by (meson surj_pair)
  have l1: "local cs1 = local cs"
  proof -
    have "cs1 = snd (FindSuccessors
        (wFindSuccessors w (nearestVnodeToKey A hosts (Id_v (vn v))) (NumSuccessors conf)
           (Id_v (vn v))) cs (nearestVnodeToKey A hosts (Id_v (vn v))) (NumSuccessors conf)
        (Id_v (vn v)))"
      using f by (simp add: grpcTransport_def)
    then show ?thesis using assms by (simp add: FindSuccessors_def outbound_local)
  qed
  note sv = seedVnode_cases [OF f]
  consider (fail) "seedFails r"
    | (ok) "\<not> seedFails r" "length (fst r) \<le> length (successors v)"
    | (long) "\<not> seedFails r" "\<not> length (fst r) \<le> length (successors v)" by blast
  then show ?case
  proof cases
    case fail
    then show ?thesis by (simp add: sv l1)
  next
    case long
    then show ?thesis by (simp add: sv l1)
  next
    case ok
    then show ?thesis
      using seedLoop_step(2) [of A conf ?tp hosts v cs _ _ cs1 rest] Cons.IH [of cs1] l1
      by (simp add: sv)
  qed
qed

lemma seedLoop_only_seeds:
  "GoDelegateHandler \<notin> set (fst (snd (seedLoop A conf tp hosts vs ts))) \<and>
   (\<forall>v. CallStabilize v \<notin> set (fst (snd (seedLoop A conf tp hosts vs ts))))"
proof -
  from seedLoop_trace [of vs A conf tp hosts ts]
  obtain k where "fst (snd (seedLoop A conf tp hosts vs ts)) =
      map (seedCall A conf hosts) (take k vs)" by blast
  then show ?thesis by (auto simp: seedCall_def)
qed

text \<open>
  C3 (as amended). Over the gRPC transport, with no other goroutine changing the registry
  during the calls: when \<open>Join\<close> returns an error it has started no delegate
  goroutine and stabilized (scheduled) no vnode; when the error comes from
  \<open>ListVnodes\<close>, failed or empty, the registry is as before; when it comes from a
  seed call, every vnode of the ring made by \<open>ring_init\<close> is still registered.
\<close>

theorem Join_failure_state:
  assumes W1: "\<forall>h c. local (meanwhile (wListVnodes w h) c) = local c"
    and W2: "\<forall>v n k c. local (meanwhile (wFindSuccessors w v n k) c) = local c"
    and J: "Join A conf (grpcTransport StringID w) existing cs = (Inr (None, Some err), evs, cs')"
    and L: "iListVnodes (grpcTransport StringID w) existing cs = ((hosts, lerr), cs1)"
    and I: "ring_init A (conf\<lparr>hashBits := HashFuncSize conf * 8\<rparr>) (grpcTransport StringID w) cs1
              = (ring, regs, cs2)"
  shows "GoDelegateHandler \<notin> set evs \<and> (\<forall>v. CallStabilize v \<notin> set evs) \<and>
         (lerr \<noteq> None \<or> hosts = [] \<longrightarrow> local cs' = local cs) \<and>
         (lerr = None \<and> hosts \<noteq> [] \<longrightarrow>
            (\<forall>v \<in> set (vnodes ring). local cs' (StringID (vn v)) \<noteq> None))"
proof -
  let ?tp = "grpcTransport StringID w"
  let ?conf = "conf\<lparr>hashBits := HashFuncSize conf * 8\<rparr>"
  have l1: "local cs1 = local cs"
  proof -
    have "cs1 = snd (ListVnodes (wListVnodes w existing) cs existing)"
      using L by (simp add: grpcTransport_def)
    then show ?thesis using W1 by (simp add: ListVnodes_def outbound_local)
  qed
  show ?thesis
  proof (cases "lerr \<noteq> None \<or> hosts = []")
    case True
    then have "evs = [CallListVnodes existing] \<and> cs' = cs1"
      using J L by (auto simp: Join_def Let_def split: option.splits)
    with True l1 show ?thesis by auto
  next
    case False
    then have ok: "lerr = None" "hosts \<noteq> []" by auto
    obtain r sevs cs3 where S: "seedLoop A ?conf ?tp hosts (vnodes ring) cs2 = (r, sevs, cs3)"
      by (meson prod_cases3)
    have e: "evs = CallListVnodes existing # regs @ sevs \<and> cs' = cs3"
      using J L I S ok by (auto simp: Join_def Let_def split: sum.splits prod.splits)
    have l3: "local cs3 = local cs2"
      using seedLoop_local [OF W2, of A ?conf StringID hosts "vnodes ring" cs2] S by simp
    have s: "GoDelegateHandler \<notin> set sevs \<and> (\<forall>v. CallStabilize v \<notin> set sevs)"
      using seedLoop_only_seeds [of A ?conf ?tp hosts "vnodes ring" cs2] S by simp
    have reg: "\<forall>v \<in> set (vnodes ring). local cs2 (StringID (vn v)) \<noteq> None"
      using ring_init_registers [OF I] by blast
    show ?thesis
      using ok e l3 s reg ring_init_only_registers [OF I] by auto
  qed
qed

section \<open>Join on concrete inputs\<close>

lemmas join_eval =
  Join_def tpJ_def grpcTransport_def worldJ_def ListVnodes_def FindSuccessors_def outbound_def
  getConn_def transport0_def NewGRPCTransport_def netList_def goroutine_def returnConn_def
  selectResult_def ring_init_def conf1_def absentJ_def seedVnode_def Register_def Let_def

lemma conf1_bits: "conf1\<lparr>hashBits := HashFuncSize conf1 * 8\<rparr> = conf1"
  by (simp add: conf1_def)

lemma listed_J:
  "fst (iListVnodes (tpJ (Inr \<lparr>Vnodes = vs\<rparr>) seed) h transport0) = (vs, None)"
  by (simp add: join_eval)

lemma seeded_J:
  "shutdown cs \<noteq> 1 \<Longrightarrow>
   fst (iFindSuccessors (tpJ listed (Inr \<lparr>Vnodes = vs\<rparr>)) v n k cs) = (vs, None)"
  by (simp add: tpJ_def grpcTransport_def worldJ_def FindSuccessors_def outbound_def getConn_def
      netList_def goroutine_def selectResult_def Let_def split: option.splits sum.splits)

theorem assignSuccessors_bounds_witness:
  "assignSuccessors 0 [Some vnB] [None] = Inr [Some vnB] \<and>
   assignSuccessors 0 [Some vnB, Some vnA] [None] = Inl IndexOutOfRange \<and>
   iFindSuccessors (tpJ (Inr \<lparr>Vnodes = [Some vnB]\<rparr>) (Inr \<lparr>Vnodes = [Some vnB, Some vnA]\<rparr>))
       vnB 1 [1] transport0 =
     (([Some vnB, Some vnA], None),
      snd (iFindSuccessors (tpJ (Inr \<lparr>Vnodes = [Some vnB]\<rparr>)
                                (Inr \<lparr>Vnodes = [Some vnB, Some vnA]\<rparr>)) vnB 1 [1] transport0)) \<and>
   length (successors (localA\<lparr>successors := [None]\<rparr>)) < length [Some vnB, Some vnA] \<and>
   fst (seedVnode absentJ conf1
          (tpJ (Inr \<lparr>Vnodes = [Some vnB]\<rparr>) (Inr \<lparr>Vnodes = [Some vnB, Some vnA]\<rparr>))
          [Some vnB] (localA\<lparr>successors := [None]\<rparr>) transport0) = Inl IndexOutOfRange \<and>
   fst (seedLoop absentJ conf1
          (tpJ (Inr \<lparr>Vnodes = [Some vnB]\<rparr>) (Inr \<lparr>Vnodes = [Some vnB, Some vnA]\<rparr>))
          [Some vnB] [localA\<lparr>successors := [None]\<rparr>] transport0) = Inl IndexOutOfRange"
proof -
  let ?tp = "tpJ (Inr \<lparr>Vnodes = [Some vnB]\<rparr>) (Inr \<lparr>Vnodes = [Some vnB, Some vnA]\<rparr>)"
  let ?v = "localA\<lparr>successors := [None]\<rparr>"
  have n: "nearestVnodeToKey absentJ [Some vnB] (Id_v (vn ?v)) = vnB"
    "NumSuccessors conf1 = 1" "Id_v (vn ?v) = [1]"
    by (simp_all add: absentJ_def conf1_def localA_def vnA_def)
  have s0: "shutdown transport0 \<noteq> 1" by (simp add: transport0_def NewGRPCTransport_def)
  have f: "iFindSuccessors ?tp vnB 1 [1] transport0 =
      (([Some vnB, Some vnA], None), snd (iFindSuccessors ?tp vnB 1 [1] transport0))"
    using seeded_J [OF s0, of "Inr \<lparr>Vnodes = [Some vnB]\<rparr>" "[Some vnB, Some vnA]" vnB 1 "[1]"]
    by (simp add: prod_eq_iff)
  have l: "length (successors ?v) < length [Some vnB, Some vnA]" by simp
  from assignSuccessors_bounds [where ss = "[Some vnB]" and arr = "[None]"
      and ss' = "[Some vnB, Some vnA]" and arr' = "[None]" and tp = ?tp and A = absentJ
      and hosts = "[Some vnB]" and v = ?v and conf = conf1 and ts = transport0
      and succs = "[Some vnB, Some vnA]"
      and ?ts1.0 = "snd (iFindSuccessors ?tp vnB 1 [1] transport0)" and rest = "[]"]
  show ?thesis using n f l by simp
qed


lemma ring_J:
  "vnodes (fst (ring_init absentJ conf1 tp ts)) =
     [\<lparr>vn = vnA, successors = [None], finger = replicate 160 None, lastFinger = 0,
       predecessor = None, stabilized = 0\<rparr>]"
  by (simp add: ring_init_def conf1_def absentJ_def Let_def)

lemma state_J:
  "shutdown (snd (snd (ring_init absentJ conf1 (tpJ listed seed)
      (snd (iListVnodes (tpJ (Inr \<lparr>Vnodes = vs\<rparr>) seed') h transport0))))) \<noteq> 1"
  by (simp add: join_eval)

lemma replies_J:
  "seedReplies absentJ conf1 (tpJ listed (Inr \<lparr>Vnodes = ss\<rparr>)) hosts
     (vnodes (fst (ring_init absentJ conf1 tp ts)))
     (snd (snd (ring_init absentJ conf1 (tpJ listed' seed')
        (snd (iListVnodes (tpJ (Inr \<lparr>Vnodes = vs\<rparr>) seed'') h transport0))))) = [(ss, None)]"
proof -
  have n: "nearestVnodeToKey absentJ hosts [1] = vnB" "NumSuccessors conf1 = 1" "Id_v vnA = [1]"
    by (simp_all add: absentJ_def conf1_def vnA_def)
  show ?thesis
    using seeded_J [OF state_J, of listed ss vnB 1 "[1]" listed' seed' vs seed'' h]
    by (simp add: ring_J n prod_eq_iff split: prod.splits)
qed

theorem Join_error_iff_witness:
  "fst (iListVnodes (tpJ (Inr \<lparr>Vnodes = [Some vnB]\<rparr>) (Inr \<lparr>Vnodes = [Some vnB]\<rparr>))
          ''b:1'' transport0) = ([Some vnB], None) \<and>
   (\<exists>ring'. fst (Join absentJ conf1 (tpJ (Inr \<lparr>Vnodes = [Some vnB]\<rparr>) (Inr \<lparr>Vnodes = [Some vnB]\<rparr>))
                   ''b:1'' transport0) = Inr (Some ring', None)) \<and>
   fst (iListVnodes (tpJ (Inr \<lparr>Vnodes = []\<rparr>) (Inr \<lparr>Vnodes = [Some vnB]\<rparr>))
          ''b:1'' transport0) = ([], None) \<and>
   fst (Join absentJ conf1 (tpJ (Inr \<lparr>Vnodes = []\<rparr>) (Inr \<lparr>Vnodes = [Some vnB]\<rparr>))
          ''b:1'' transport0) = Inr (None, Some (Errorf ''remote host has no vnodes''))"
proof -
  let ?ok = "tpJ (Inr \<lparr>Vnodes = [Some vnB]\<rparr>) (Inr \<lparr>Vnodes = [Some vnB]\<rparr>)"
  let ?em = "tpJ (Inr \<lparr>Vnodes = []\<rparr>) (Inr \<lparr>Vnodes = [Some vnB]\<rparr>)"
  have part: "fst (iListVnodes tp ''b:1'' transport0) = (hosts, None) \<Longrightarrow>
      seedReplies absentJ conf1 tp hosts
        (vnodes (fst (ring_init absentJ conf1 tp (snd (iListVnodes tp ''b:1'' transport0)))))
        (snd (snd (ring_init absentJ conf1 tp (snd (iListVnodes tp ''b:1'' transport0)))))
        = [([Some vnB], None)] \<Longrightarrow>
      ((\<exists>err. fst (Join absentJ conf1 tp ''b:1'' transport0) = Inr (None, Some err)) \<longleftrightarrow>
         hosts = []) \<and>
      (hosts = [] \<longrightarrow> fst (Join absentJ conf1 tp ''b:1'' transport0) =
         Inr (None, Some (Errorf ''remote host has no vnodes''))) \<and>
      (hosts \<noteq> [] \<longrightarrow> (\<exists>ring'. fst (Join absentJ conf1 tp ''b:1'' transport0) =
         Inr (Some ring', None)))" for tp hosts
  proof -
    assume l: "fst (iListVnodes tp ''b:1'' transport0) = (hosts, None)"
      and r: "seedReplies absentJ conf1 tp hosts
        (vnodes (fst (ring_init absentJ conf1 tp (snd (iListVnodes tp ''b:1'' transport0)))))
        (snd (snd (ring_init absentJ conf1 tp (snd (iListVnodes tp ''b:1'' transport0)))))
        = [([Some vnB], None)]"
    let ?ts1 = "snd (iListVnodes tp ''b:1'' transport0)"
    let ?ri = "ring_init absentJ (conf1\<lparr>hashBits := HashFuncSize conf1 * 8\<rparr>) tp ?ts1"
    have L: "iListVnodes tp ''b:1'' transport0 = ((hosts, None), ?ts1)"
      using l by (simp add: prod_eq_iff)
    have I: "?ri = (fst ?ri, fst (snd ?ri), snd (snd ?ri))" by simp
    have R: "[([Some vnB], None)] =
        seedReplies absentJ (conf1\<lparr>hashBits := HashFuncSize conf1 * 8\<rparr>) tp hosts
          (vnodes (fst ?ri)) (snd (snd ?ri))"
      using r by (simp add: conf1_bits)
    have B: "\<forall>(v, r) \<in> set (zip (vnodes (fst ?ri)) [([Some vnB], None)]).
               length (fst r) \<le> length (successors v)"
      by (simp add: conf1_bits ring_J)
    have nf: "\<not> seedFails ([Some vnB], None)" by (simp add: seedFails_def)
    from Join_error_iff [OF L I R B] nf show ?thesis by simp
  qed
  have l1: "fst (iListVnodes ?ok ''b:1'' transport0) = ([Some vnB], None)" by (rule listed_J)
  have l2: "fst (iListVnodes ?em ''b:1'' transport0) = ([], None)" by (rule listed_J)
  from part [OF l1 replies_J] part [OF l2 replies_J] l1 l2 show ?thesis by simp
qed

text \<open>
  Against C5 as stated: \<open>ListVnodes\<close> answers one vnode, the only seed call
  answers two successors without error, the successor array has one entry
  (\<open>NumSuccessors = 1\<close>), and \<open>Join\<close> returns neither an error nor the ring.
\<close>

theorem Join_overlong_reply_counterexample:
  "fst (iListVnodes (tpJ (Inr \<lparr>Vnodes = [Some vnB]\<rparr>) (Inr \<lparr>Vnodes = [Some vnB, Some vnA]\<rparr>))
          ''b:1'' transport0) = ([Some vnB], None) \<and>
   seedReplies absentJ conf1
     (tpJ (Inr \<lparr>Vnodes = [Some vnB]\<rparr>) (Inr \<lparr>Vnodes = [Some vnB, Some vnA]\<rparr>)) [Some vnB]
     (vnodes (fst (ring_init absentJ conf1
        (tpJ (Inr \<lparr>Vnodes = [Some vnB]\<rparr>) (Inr \<lparr>Vnodes = [Some vnB, Some vnA]\<rparr>))
        (snd (iListVnodes (tpJ (Inr \<lparr>Vnodes = [Some vnB]\<rparr>) (Inr \<lparr>Vnodes = [Some vnB, Some vnA]\<rparr>))
                ''b:1'' transport0)))))
     (snd (snd (ring_init absentJ conf1
        (tpJ (Inr \<lparr>Vnodes = [Some vnB]\<rparr>) (Inr \<lparr>Vnodes = [Some vnB, Some vnA]\<rparr>))
        (snd (iListVnodes (tpJ (Inr \<lparr>Vnodes = [Some vnB]\<rparr>) (Inr \<lparr>Vnodes = [Some vnB, Some vnA]\<rparr>))
                ''b:1'' transport0)))))
     = [([Some vnB, Some vnA], None)] \<and>
   \<not> seedFails ([Some vnB, Some vnA], None) \<and>
   fst (Join absentJ conf1
          (tpJ (Inr \<lparr>Vnodes = [Some vnB]\<rparr>) (Inr \<lparr>Vnodes = [Some vnB, Some vnA]\<rparr>))
          ''b:1'' transport0) = Inl IndexOutOfRange"
proof -
  have j: "fst (Join absentJ conf1
          (tpJ (Inr \<lparr>Vnodes = [Some vnB]\<rparr>) (Inr \<lparr>Vnodes = [Some vnB, Some vnA]\<rparr>))
          ''b:1'' transport0) = Inl IndexOutOfRange"
    by (simp add: join_eval vnB_def)
  show ?thesis using j listed_J replies_J by (simp add: seedFails_def)
qed


lemma Join_fail_eval:
  "fst (Join absentJ conf1 (tpJ (Inr \<lparr>Vnodes = [Some vnB]\<rparr>) (Inl (Foreign ''unavailable'')))
          ''b:1'' transport0) = Inr (None, Some (Foreign ''unavailable''))"
  by (simp add: join_eval vnB_def)

lemma Join_fail_registry:
  "local (snd (snd (Join absentJ conf1
      (tpJ (Inr \<lparr>Vnodes = [Some vnB]\<rparr>) (Inl (Foreign ''unavailable''))) ''b:1'' transport0)))
     (idHex vnA) = Some \<lparr>vnode = vnA, obj = handlerA\<rparr>"
  by (simp add: join_eval vnB_def)

lemma Join_empty_eval:
  "fst (Join absentJ conf1 (tpJ (Inr \<lparr>Vnodes = []\<rparr>) (Inr \<lparr>Vnodes = [Some vnB]\<rparr>))
          ''b:1'' transport0) = Inr (None, Some (Errorf ''remote host has no vnodes''))"
  by (simp add: join_eval)

lemma worldJ_quiet:
  "\<forall>h c. local (meanwhile (wListVnodes (worldJ listed seed) h) c) = local c"
  "\<forall>v n k c. local (meanwhile (wFindSuccessors (worldJ listed seed) v n k) c) = local c"
  by (simp_all add: worldJ_def netList_def)

theorem Join_failure_state_witness:
  "fst (Join absentJ conf1 (tpJ (Inr \<lparr>Vnodes = [Some vnB]\<rparr>) (Inl (Foreign ''unavailable'')))
          ''b:1'' transport0) = Inr (None, Some (Foreign ''unavailable'')) \<and>
   GoDelegateHandler \<notin> set (fst (snd (Join absentJ conf1
      (tpJ (Inr \<lparr>Vnodes = [Some vnB]\<rparr>) (Inl (Foreign ''unavailable''))) ''b:1'' transport0))) \<and>
   CallStabilize vnA \<notin> set (fst (snd (Join absentJ conf1
      (tpJ (Inr \<lparr>Vnodes = [Some vnB]\<rparr>) (Inl (Foreign ''unavailable''))) ''b:1'' transport0))) \<and>
   local (snd (snd (Join absentJ conf1
      (tpJ (Inr \<lparr>Vnodes = [Some vnB]\<rparr>) (Inl (Foreign ''unavailable''))) ''b:1'' transport0)))
     (idHex vnA) \<noteq> None \<and>
   fst (Join absentJ conf1 (tpJ (Inr \<lparr>Vnodes = []\<rparr>) (Inr \<lparr>Vnodes = [Some vnB]\<rparr>))
          ''b:1'' transport0) = Inr (None, Some (Errorf ''remote host has no vnodes'')) \<and>
   local (snd (snd (Join absentJ conf1 (tpJ (Inr \<lparr>Vnodes = []\<rparr>) (Inr \<lparr>Vnodes = [Some vnB]\<rparr>))
          ''b:1'' transport0))) = local transport0"
proof -
  have part: "fst (Join absentJ conf1 (tpJ listed seed) ''b:1'' transport0) = Inr (None, Some err) \<Longrightarrow>
      fst (iListVnodes (tpJ listed seed) ''b:1'' transport0) = (hosts, None) \<Longrightarrow>
      GoDelegateHandler \<notin> set (fst (snd (Join absentJ conf1 (tpJ listed seed) ''b:1'' transport0))) \<and>
      CallStabilize vnA \<notin> set (fst (snd (Join absentJ conf1 (tpJ listed seed) ''b:1'' transport0))) \<and>
      (hosts = [] \<longrightarrow>
         local (snd (snd (Join absentJ conf1 (tpJ listed seed) ''b:1'' transport0))) = local transport0) \<and>
      (hosts \<noteq> [] \<longrightarrow>
         local (snd (snd (Join absentJ conf1 (tpJ listed seed) ''b:1'' transport0))) (idHex vnA) \<noteq> None)"
    for listed seed err hosts
  proof -
    let ?tp = "grpcTransport idHex (worldJ listed seed)"
    let ?J = "Join absentJ conf1 ?tp ''b:1'' transport0"
    let ?ts1 = "snd (iListVnodes ?tp ''b:1'' transport0)"
    let ?ri = "ring_init absentJ (conf1\<lparr>hashBits := HashFuncSize conf1 * 8\<rparr>) ?tp ?ts1"
    assume j: "fst (Join absentJ conf1 (tpJ listed seed) ''b:1'' transport0) = Inr (None, Some err)"
      and l: "fst (iListVnodes (tpJ listed seed) ''b:1'' transport0) = (hosts, None)"
    have J: "?J = (Inr (None, Some err), fst (snd ?J), snd (snd ?J))"
      using j by (simp add: tpJ_def prod_eq_iff)
    have L: "iListVnodes ?tp ''b:1'' transport0 = ((hosts, None), ?ts1)"
      using l by (simp add: tpJ_def prod_eq_iff)
    have I: "?ri = (fst ?ri, fst (snd ?ri), snd (snd ?ri))" by simp
    have v: "vnA \<in> vn ` set (vnodes (fst ?ri))"
      by (simp add: conf1_bits ring_J)
    from Join_failure_state [OF worldJ_quiet J L I] v show ?thesis
      by (auto simp: tpJ_def)
  qed
  from part [OF Join_fail_eval listed_J] part [OF Join_empty_eval listed_J]
    Join_fail_eval Join_empty_eval
  show ?thesis by simp
qed

text \<open>
  Against C3 as stated: the seed call fails, \<open>Join\<close> returns its error, and the vnode
  of the attempted ring, not registered before, is registered afterwards.
\<close>

theorem Join_failure_leaves_vnode_registered_counterexample:
  "fst (Join absentJ conf1 (tpJ (Inr \<lparr>Vnodes = [Some vnB]\<rparr>) (Inl (Foreign ''unavailable'')))
          ''b:1'' transport0) = Inr (None, Some (Foreign ''unavailable'')) \<and>
   map vn (vnodes (fst (ring_init absentJ conf1
      (tpJ (Inr \<lparr>Vnodes = [Some vnB]\<rparr>) (Inl (Foreign ''unavailable'')))
      (snd (iListVnodes (tpJ (Inr \<lparr>Vnodes = [Some vnB]\<rparr>) (Inl (Foreign ''unavailable'')))
              ''b:1'' transport0))))) = [vnA] \<and>
   local transport0 (idHex vnA) = None \<and>
   local (snd (snd (Join absentJ conf1
      (tpJ (Inr \<lparr>Vnodes = [Some vnB]\<rparr>) (Inl (Foreign ''unavailable''))) ''b:1'' transport0)))
     (idHex vnA) = Some \<lparr>vnode = vnA, obj = handlerA\<rparr>"
  using Join_fail_eval Join_fail_registry
  by (simp add: ring_J transport0_def NewGRPCTransport_def)

section \<open>The outbound calls and the local registry\<close>









end
